theory Spec2Isabelle
  imports Main "HOL-Library.AList"
begin

section \<open>Python values, exceptions and string helpers\<close>

text \<open>
  The exceptions the two modules can raise. The classes are Python's: the arity and
  missing-keyword failures of \<^verbatim>\<open>Property._validate\<close> are \<^verbatim>\<open>TypeError\<close>, a value
  that fails the pattern is a \<^verbatim>\<open>ValueError\<close>, the filter check of
  \<^verbatim>\<open>PropertyType.get_count\<close> is an \<^verbatim>\<open>assert\<close>. \<open>ReError\<close> is \<^verbatim>\<open>re.error\<close>
  (a pattern that does not compile), \<open>SchemaError\<close> the failure of a vertex constructor.
\<close>

datatype error =
    TypeError string
  | ValueError string
  | AssertionError
  | KeyError string
  | IndexError
  | ReError
  | SchemaError
  | IgraphError

text \<open>
  What a caller may pass as \<^verbatim>\<open>values\<close>: a string, some other scalar, or a list.
  \<^verbatim>\<open>isinstance(x, list)\<close> is true on \<open>PList\<close> only.
\<close>

datatype pyval = PStr string | PInt int | PList "pyval list"

fun isinstance_list :: "pyval \<Rightarrow> bool" where
  "isinstance_list (PList _) = True"
| "isinstance_list _ = False"

text \<open>Python's \<^verbatim>\<open>"%d" % n\<close>: the decimal digits, with a minus sign below zero.\<close>

definition digit_char :: "nat \<Rightarrow> char" where
  "digit_char d = ''0123456789'' ! d"

fun str_nat :: "nat \<Rightarrow> string" where
  "str_nat n = (if n < 10 then [digit_char n] else str_nat (n div 10) @ [digit_char (n mod 10)])"

declare str_nat.simps [simp del]

definition str_int :: "int \<Rightarrow> string" where
  "str_int i = (if i < 0 then CHR ''-'' # str_nat (nat (- i)) else str_nat (nat i))"

text \<open>
  Substring test (\<^verbatim>\<open>s in t\<close>, and the store's \<^verbatim>\<open>TextP.containing(s)\<close> on \<open>t\<close>):
  \<open>s\<close> is a prefix of some suffix of \<open>t\<close>. Case-sensitive.
\<close>

fun is_prefix :: "string \<Rightarrow> string \<Rightarrow> bool" where
  "is_prefix [] t = True"
| "is_prefix (c # s) [] = False"
| "is_prefix (c # s) (d # t) = (c = d \<and> is_prefix s t)"

fun containing :: "string \<Rightarrow> string \<Rightarrow> bool" where
  "containing s [] = (s = [])"
| "containing s (d # t) = (is_prefix s (d # t) \<or> containing s t)"

section \<open>PropertyType\<close>

text \<open>
  The attributes declared by \<^verbatim>\<open>PropertyType._vertex_attrs\<close>: \<^verbatim>\<open>name\<close>, \<^verbatim>\<open>units\<close>
  (default \<^verbatim>\<open>""\<close>), \<^verbatim>\<open>allowed_regex\<close> (default \<^verbatim>\<open>".*"\<close>), \<^verbatim>\<open>n_values\<close> (an int),
  \<^verbatim>\<open>allowed_types\<close> (a list of component types, here by name) and \<^verbatim>\<open>comments\<close>
  (default \<^verbatim>\<open>""\<close>).
\<close>

record PropertyType =
  name :: string
  units :: string
  allowed_regex :: string
  n_values :: int
  allowed_types :: "string list"
  comments :: string

text \<open>
  The regular-expression engine (Python's \<^verbatim>\<open>re\<close>) is a parameter: it maps a pattern to
  \<open>None\<close> when the pattern does not compile (\<^verbatim>\<open>re.error\<close>) and otherwise to the
  full-match test of the compiled pattern.
\<close>

type_synonym re_engine = "string \<Rightarrow> (string \<Rightarrow> bool) option"

section \<open>Property\<close>

text \<open>
  The keyword arguments of \<^verbatim>\<open>Property(**kwargs)\<close>: each of \<^verbatim>\<open>type\<close> and \<^verbatim>\<open>values\<close>
  may be absent.
\<close>

record kwargs =
  kw_type :: "PropertyType option"
  kw_values :: "pyval option"

text \<open>Lines 145-151: a value that is not a list becomes a one-element list.\<close>

fun coerce_values :: "pyval \<Rightarrow> pyval list" where
  "coerce_values (PList vs) = vs"
| "coerce_values v = [v]"

text \<open>Lines 156-158: the message of the arity failure.\<close>

definition arity_message :: "int \<Rightarrow> string" where
  "arity_message nn =
     str_int nn @ '' value'' @ (if nn = 1 then '''' else ''s'') @ '' '' @
     (if nn = 1 then ''is'' else ''are'') @ '' required.''"

text \<open>Lines 165-169: the message of the pattern failure.\<close>

definition regex_message :: "string \<Rightarrow> PropertyType \<Rightarrow> string" where
  "regex_message val T =
     ''Property with value '' @ val @ '' of type '' @ name T @
     '' does not match regex '' @ allowed_regex T @ ''.''"

text \<open>
  Lines 163-169, the loop over the values. \<^verbatim>\<open>re.fullmatch\<close> compiles the pattern first
  and then needs a string to match against.
\<close>

fun check_values :: "re_engine \<Rightarrow> PropertyType \<Rightarrow> pyval list \<Rightarrow> error + unit" where
  "check_values rx T [] = Inr ()"
| "check_values rx T (val # vals) =
     (case rx (allowed_regex T) of
        None \<Rightarrow> Inl ReError
      | Some fullmatch \<Rightarrow>
          (case val of
             PStr s \<Rightarrow>
               if \<not> fullmatch s then Inl (ValueError (regex_message s T))
               else check_values rx T vals
           | _ \<Rightarrow> Inl (TypeError ''expected string or bytes-like object'')))"

text \<open>
  \<^verbatim>\<open>Property._validate\<close> (lines 142-169). The first \<^verbatim>\<open>try\<close> reads
  \<^verbatim>\<open>kwargs["values"]\<close>, the second \<^verbatim>\<open>kwargs["type"]\<close>; a missing key is a
  \<^verbatim>\<open>TypeError\<close> naming the keyword (the class name is \<^verbatim>\<open>Property\<close>). The coerced
  list lives in the method's own \<^verbatim>\<open>kwargs\<close> and is not returned.
\<close>

definition validate :: "re_engine \<Rightarrow> kwargs \<Rightarrow> error + unit" where
  "validate rx kw =
     (case kw_values kw of
        None \<Rightarrow> Inl (TypeError ''Property() missing required keyword \"values\".'')
      | Some v \<Rightarrow>
          (let vals = coerce_values v in
           case kw_type kw of
             None \<Rightarrow> Inl (TypeError ''Property() missing required keyword \"type\".'')
           | Some T \<Rightarrow>
               (let nn = n_values T in
                if int (length vals) \<noteq> nn then Inl (TypeError (arity_message nn))
                else check_values rx T vals)))"

text \<open>
  Modelled from the spec: the initialiser that \<^verbatim>\<open>Property\<close> inherits from \<^verbatim>\<open>Vertex\<close>
  (\<^verbatim>\<open>_base.py\<close>, outside the two modules modelled here). It runs \<^verbatim>\<open>_validate\<close> first (the docstring
  of \<^verbatim>\<open>_validate\<close>: "This is called by the initialiser") and, when that raises nothing,
  keeps the type and the values, a single scalar coerced into a one-element sequence.
\<close>

record Property =
  type :: PropertyType
  "values" :: "pyval list"

definition Property_init :: "re_engine \<Rightarrow> kwargs \<Rightarrow> error + Property" where
  "Property_init rx kw =
     (case validate rx kw of
        Inl e \<Rightarrow> Inl e
      | Inr _ \<Rightarrow>
          (case (kw_type kw, kw_values kw) of
             (Some T, Some v) \<Rightarrow> Inr \<lparr>type = T, values = coerce_values v\<rparr>
           | _ \<Rightarrow> Inl (TypeError ''missing required keyword'')))"

text \<open>
  Modelled from the spec: \<^verbatim>\<open>PropertyType.as_dict\<close>, inherited from \<^verbatim>\<open>Vertex\<close>
  (\<^verbatim>\<open>_base.py\<close>, outside the two modules modelled here): the type's structural snapshot, that is its
  name, units, regex, n_values and comments.
\<close>

record PropertyType_dict =
  d_name :: string
  d_units :: string
  d_allowed_regex :: string
  d_n_values :: int
  d_comments :: string

definition PropertyType_as_dict :: "PropertyType \<Rightarrow> PropertyType_dict" where
  "PropertyType_as_dict T =
     \<lparr>d_name = name T, d_units = units T, d_allowed_regex = allowed_regex T,
      d_n_values = n_values T, d_comments = comments T\<rparr>"

text \<open>\<^verbatim>\<open>Property.as_dict\<close> (lines 192-197): the keys \<^verbatim>\<open>'values'\<close> and \<^verbatim>\<open>'type'\<close>.\<close>

record Property_dict =
  d_values :: "pyval list"
  d_type :: PropertyType_dict

definition as_dict :: "Property \<Rightarrow> Property_dict" where
  "as_dict self = \<lparr>d_values = values self, d_type = PropertyType_as_dict (type self)\<rparr>"

text \<open>
  Modelled from the spec: the initialiser that \<^verbatim>\<open>PropertyType\<close> inherits from
  \<^verbatim>\<open>Vertex\<close> (\<^verbatim>\<open>_base.py\<close>, outside the two modules modelled here). It checks the invariants of the
  data model, \<^verbatim>\<open>n_values >= 1\<close>, \<^verbatim>\<open>allowed_types\<close> non-empty and \<^verbatim>\<open>allowed_regex\<close>
  compiles, and signals a \<open>SchemaError\<close> when one fails. The bounds on the length of
  \<^verbatim>\<open>allowed_types\<close> are the \<^verbatim>\<open>list_len=(1, int(1e10))\<close> of line 51; the defaults of the
  optional attributes are those of lines 46, 47 and 52.
\<close>

definition list_len :: "nat \<times> nat" where
  "list_len = (1, 10 ^ 10)"

definition well_formed :: "re_engine \<Rightarrow> PropertyType \<Rightarrow> bool" where
  "well_formed rx T \<longleftrightarrow>
     n_values T \<ge> 1 \<and>
     fst list_len \<le> length (allowed_types T) \<and> length (allowed_types T) \<le> snd list_len \<and>
     rx (allowed_regex T) \<noteq> None"

definition PropertyType_init ::
  "re_engine \<Rightarrow> string \<Rightarrow> string option \<Rightarrow> string option \<Rightarrow> int \<Rightarrow> string list \<Rightarrow>
   string option \<Rightarrow> error + PropertyType" where
  "PropertyType_init rx nm un re nv ats cm =
     (let T = \<lparr>name = nm,
               units = (case un of None \<Rightarrow> '''' | Some u \<Rightarrow> u),
               allowed_regex = (case re of None \<Rightarrow> ''.*'' | Some r \<Rightarrow> r),
               n_values = nv,
               allowed_types = ats,
               comments = (case cm of None \<Rightarrow> '''' | Some c \<Rightarrow> c)\<rparr>
      in if well_formed rx T then Inr T else Inl SchemaError)"

section \<open>The backing store and \<^verbatim>\<open>PropertyType.get_count\<close>\<close>

text \<open>
  The store: vertices with an id and properties, edges with a label (their category)
  from an out-vertex to an in-vertex. A property value is a boolean or a string.
\<close>

datatype pval = VBool bool | VStr string

record vertex =
  vid :: nat
  vprops :: "(string \<times> pval) list"

record edge =
  elabel :: string
  outV :: nat
  inV :: nat

record store =
  vertices :: "vertex list"
  edges :: "edge list"

text \<open>
  The filter steps of the traversal language that \<^verbatim>\<open>get_count\<close> uses:
  \<^verbatim>\<open>has(key, value)\<close>, \<^verbatim>\<open>has(key, TextP.containing(s))\<close>, \<^verbatim>\<open>both(label)\<close> followed
  by a filter on the vertex reached, \<^verbatim>\<open>and_(...)\<close> and \<^verbatim>\<open>or_(...)\<close>.
\<close>

datatype step =
    Has string pval
  | HasContaining string string
  | Both string step
  | And_steps "step list"
  | Or_steps "step list"

text \<open>\<^verbatim>\<open>both(label)\<close>: the vertices at the other end of an edge of that label, in either direction.\<close>

definition both :: "store \<Rightarrow> string \<Rightarrow> vertex \<Rightarrow> vertex list" where
  "both g l x =
     concat (map (\<lambda>e.
       if elabel e = l then
         (if outV e = vid x then filter (\<lambda>u. vid u = inV e) (vertices g) else []) @
         (if inV e = vid x then filter (\<lambda>u. vid u = outV e) (vertices g) else [])
       else []) (edges g))"

fun sat :: "store \<Rightarrow> step \<Rightarrow> vertex \<Rightarrow> bool" where
  "sat g (Has k v) x = (map_of (vprops x) k = Some v)"
| "sat g (HasContaining k s) x =
     (case map_of (vprops x) k of Some (VStr n) \<Rightarrow> containing s n | _ \<Rightarrow> False)"
| "sat g (Both l t) x = list_ex (sat g t) (both g l x)"
| "sat g (And_steps ts) x = list_all (\<lambda>t. sat g t x) ts"
| "sat g (Or_steps ts) x = list_ex (\<lambda>t. sat g t x) ts"

text \<open>\<^verbatim>\<open>g.t.V()\<close> followed by filter steps, then \<^verbatim>\<open>count().next()\<close>.\<close>

definition count_next :: "store \<Rightarrow> step list \<Rightarrow> nat" where
  "count_next g traversal = length (filter (\<lambda>x. list_all (\<lambda>t. sat g t x) traversal) (vertices g))"

text \<open>
  The loop of lines 75-95 over the filters, with the list \<^verbatim>\<open>ands\<close> built so far. A filter
  is a tuple of any length; \<open>allowed\<close> is \<^verbatim>\<open>RelationPropertyAllowedType.category\<close>, a
  constant of \<^verbatim>\<open>_edges.py\<close>.
\<close>

definition contents_of :: "string \<Rightarrow> string list \<Rightarrow> step list" where
  "contents_of allowed f =
     (if f ! 0 \<noteq> '''' then [HasContaining ''name'' (f ! 0)] else []) @
     (if f ! 1 \<noteq> '''' then [Both allowed (Has ''name'' (VStr (f ! 1)))] else [])"

fun filter_loop :: "string \<Rightarrow> step list \<Rightarrow> string list list \<Rightarrow> error + step list" where
  "filter_loop allowed ands [] = Inr ands"
| "filter_loop allowed ands (f # fs) =
     (if length f \<noteq> 2 then Inl AssertionError
      else let contents = contents_of allowed f in
           if length contents > 0 then filter_loop allowed (ands @ [And_steps contents]) fs
           else filter_loop allowed ands fs)"

text \<open>\<^verbatim>\<open>PropertyType.get_count\<close> (lines 56-100); \<open>None\<close> is Python's \<^verbatim>\<open>None\<close>.\<close>

definition category :: string where
  "category = ''property_type''"

definition get_count :: "string \<Rightarrow> store \<Rightarrow> string list list option \<Rightarrow> error + nat" where
  "get_count allowed g filters =
     (let traversal = [Has ''active'' (VBool True), Has ''category'' (VStr category)] in
      case filters of
        None \<Rightarrow> Inr (count_next g traversal)
      | Some fs \<Rightarrow>
          (case filter_loop allowed [] fs of
             Inl e \<Rightarrow> Inl e
           | Inr ands \<Rightarrow>
               if length ands > 0 then Inr (count_next g (traversal @ [Or_steps ands]))
               else Inr (count_next g traversal)))"

text \<open>
  The count as the specification words it: the active property types that match some
  filter, a filter being the conjunction of its two clauses and a clause with an empty
  string being skipped; every active property type when there is no filter.
\<close>

definition active_property_type :: "vertex \<Rightarrow> bool" where
  "active_property_type x \<longleftrightarrow>
     map_of (vprops x) ''active'' = Some (VBool True) \<and>
     map_of (vprops x) ''category'' = Some (VStr category)"

definition name_contains :: "string \<Rightarrow> vertex \<Rightarrow> bool" where
  "name_contains s x =
     (case map_of (vprops x) ''name'' of Some (VStr n) \<Rightarrow> containing s n | _ \<Rightarrow> False)"

definition permitted_on :: "string \<Rightarrow> store \<Rightarrow> string \<Rightarrow> vertex \<Rightarrow> bool" where
  "permitted_on allowed g owner x =
     list_ex (\<lambda>u. map_of (vprops u) ''name'' = Some (VStr owner)) (both g allowed x)"

definition filter_matches :: "string \<Rightarrow> store \<Rightarrow> string list \<Rightarrow> vertex \<Rightarrow> bool" where
  "filter_matches allowed g f x \<longleftrightarrow>
     (f ! 0 = '''' \<or> name_contains (f ! 0) x) \<and>
     (f ! 1 = '''' \<or> permitted_on allowed g (f ! 1) x)"

definition spec_count :: "string \<Rightarrow> store \<Rightarrow> string list list \<Rightarrow> nat" where
  "spec_count allowed g fs =
     length (filter (\<lambda>x. active_property_type x \<and>
                         (fs = [] \<or> list_ex (\<lambda>f. filter_matches allowed g f x) fs))
                    (vertices g))"

text \<open>A filter with both elements empty adds nothing to \<^verbatim>\<open>ands\<close> (line 94).\<close>

definition blank :: "string list \<Rightarrow> bool" where
  "blank f \<longleftrightarrow> f ! 0 = '''' \<and> f ! 1 = ''''"

section \<open>LocalGraph\<close>

text \<open>
  A Python dict with string keys is an association list in insertion order, without
  duplicate keys: \<^verbatim>\<open>d[k]\<close> is \<open>map_of d k\<close>, and \<^verbatim>\<open>d[k] = v\<close> is
  \<open>AList.update k v d\<close>, which overwrites in place or appends. An endpoint descriptor
  has the keys \<^verbatim>\<open>'properties'\<close> (attribute name to a list of values) and \<^verbatim>\<open>'type'\<close>.
\<close>

type_synonym pdict = "(string \<times> string list) list"

record endpoint =
  properties :: pdict
  ep_type :: string

text \<open>
  What \<^verbatim>\<open>igraph.Graph\<close> holds, as far as this class reads and writes it: the number of
  vertices, the edges, and the vertex attributes \<^verbatim>\<open>vs[key]\<close>, one value for each
  vertex.
\<close>

record Graph =
  vcount :: nat
  es :: "(nat \<times> nat) list"
  vs :: pdict

record LocalGraph =
  graph :: Graph

text \<open>\<^verbatim>\<open>__init__\<close> (lines 26-31): an empty graph.\<close>

definition LocalGraph_init :: LocalGraph where
  "LocalGraph_init = \<lparr>graph = \<lparr>vcount = 0, es = [], vs = []\<rparr>\<rparr>"

text \<open>The four local variables of lines 48-57.\<close>

record build_state =
  vertex_properties :: pdict
  vertex_name_to_ind :: "(string \<times> nat) list"
  vertex_index_connections :: "nat list list"
  vertices_so_far :: nat

text \<open>
  Lines 78-82, the loop over the keys of \<^verbatim>\<open>properties\<close>: each key gets the first element
  of its list appended to its column of \<^verbatim>\<open>vertex_properties\<close>, created empty when the key
  is new. \<^verbatim>\<open>properties[key][0]\<close> raises \<^verbatim>\<open>IndexError\<close> on an empty list.
\<close>

fun copy_properties :: "pdict \<Rightarrow> pdict \<Rightarrow> error + pdict" where
  "copy_properties [] vp = Inr vp"
| "copy_properties ((key, vals) # items) vp =
     (let vp1 = (if map_of vp key = None then AList.update key [] vp else vp) in
      case vals of
        [] \<Rightarrow> Inl IndexError
      | v # _ \<Rightarrow>
          copy_properties items
            (AList.update key ((case map_of vp1 key of None \<Rightarrow> [] | Some col \<Rightarrow> col) @ [v]) vp1))"

text \<open>
  Lines 66-87, the body of the inner loop for one endpoint. It returns the endpoint as the
  caller sees it afterwards: line 70 writes \<^verbatim>\<open>properties['type']\<close> into the caller's own
  dict before anything can raise. The result is the new state and the index appended to
  \<^verbatim>\<open>indices\<close>.
\<close>

definition process_endpoint ::
  "build_state \<Rightarrow> endpoint \<Rightarrow> (error + build_state \<times> nat) \<times> endpoint" where
  "process_endpoint st e =
     (let props = AList.update ''type'' [ep_type e] (properties e);
          e' = e\<lparr>properties := props\<rparr>
      in case map_of props ''name'' of
           None \<Rightarrow> (Inl (KeyError ''name''), e')
         | Some [] \<Rightarrow> (Inl IndexError, e')
         | Some (nm # _) \<Rightarrow>
             (case map_of (vertex_name_to_ind st) nm of
                Some i \<Rightarrow> (Inr (st, i), e')
              | None \<Rightarrow>
                  (case copy_properties props (vertex_properties st) of
                     Inl err \<Rightarrow> (Inl err, e')
                   | Inr vp \<Rightarrow>
                       (Inr (st\<lparr>vertex_name_to_ind :=
                                   AList.update nm (vertices_so_far st) (vertex_name_to_ind st),
                                 vertex_properties := vp,
                                 vertices_so_far := vertices_so_far st + 1\<rparr>,
                             vertices_so_far st), e'))))"

text \<open>Lines 64-87: \<^verbatim>\<open>for i in range(len(pair))\<close>, with \<^verbatim>\<open>indices\<close> built so far.\<close>

fun process_pair ::
  "build_state \<Rightarrow> nat list \<Rightarrow> endpoint list \<Rightarrow> (error + build_state \<times> nat list) \<times> endpoint list" where
  "process_pair st indices [] = (Inr (st, indices), [])"
| "process_pair st indices (e # rest) =
     (case process_endpoint st e of
        (Inl err, e') \<Rightarrow> (Inl err, e' # rest)
      | (Inr (st', i), e') \<Rightarrow>
          (case process_pair st' (indices @ [i]) rest of
             (r, rest') \<Rightarrow> (r, e' # rest')))"

text \<open>Lines 59-89: \<^verbatim>\<open>for pair in vertex_connections\<close>.\<close>

fun process_connections ::
  "build_state \<Rightarrow> endpoint list list \<Rightarrow> (error + build_state) \<times> endpoint list list" where
  "process_connections st [] = (Inr st, [])"
| "process_connections st (pair # pairs) =
     (case process_pair st [] pair of
        (Inl err, pair') \<Rightarrow> (Inl err, pair' # pairs)
      | (Inr (st', indices), pair') \<Rightarrow>
          (case process_connections
                  (st'\<lparr>vertex_index_connections := vertex_index_connections st' @ [indices]\<rparr>)
                  pairs of
             (r, pairs') \<Rightarrow> (r, pair' # pairs')))"

text \<open>
  \<^verbatim>\<open>igraph.Graph(edges)\<close> (line 91): every element of the edge list has to be a pair; the
  graph gets the vertices \<open>0\<close> up to the largest index that occurs.
\<close>

fun as_pairs :: "nat list list \<Rightarrow> error + (nat \<times> nat) list" where
  "as_pairs [] = Inr []"
| "as_pairs (t # ts) =
     (case t of
        [a, b] \<Rightarrow> (case as_pairs ts of Inl err \<Rightarrow> Inl err | Inr ps \<Rightarrow> Inr ((a, b) # ps))
      | _ \<Rightarrow> Inl IgraphError)"

definition igraph_Graph :: "nat list list \<Rightarrow> error + Graph" where
  "igraph_Graph conns =
     (case as_pairs conns of
        Inl err \<Rightarrow> Inl err
      | Inr ps \<Rightarrow>
          Inr \<lparr>vcount = (if ps = [] then 0 else Suc (fold max (map fst ps @ map snd ps) 0)),
               es = ps, vs = []\<rparr>)"

text \<open>
  Lines 93-94: \<^verbatim>\<open>self.graph.vs[key] = vertex_properties[key]\<close> for every key. The
  assignment gives every vertex a value: igraph takes the list round and round until
  each of the \<open>vcount\<close> vertices has one (entry \<open>i mod n\<close> of a list of \<open>n\<close> for vertex
  \<open>i\<close>), leaves out what is beyond \<open>vcount\<close>, and raises \<^verbatim>\<open>ValueError\<close> for an empty
  list when there are vertices.
\<close>

definition recycle :: "nat \<Rightarrow> string list \<Rightarrow> string list" where
  "recycle n col = map (\<lambda>i. col ! (i mod length col)) [0..<n]"

definition vs_assign :: "string \<Rightarrow> string list \<Rightarrow> Graph \<Rightarrow> error + Graph" where
  "vs_assign key col g =
     (if col = [] \<and> vcount g > 0 then Inl (ValueError ''sequence must not be empty'')
      else Inr (g\<lparr>vs := AList.update key (recycle (vcount g) col) (vs g)\<rparr>))"

text \<open>
  The loop of lines 93-94, with the graph as it is when the loop ends or an assignment
  raises.
\<close>

fun set_attributes :: "pdict \<Rightarrow> Graph \<Rightarrow> (error + unit) \<times> Graph" where
  "set_attributes [] g = (Inr (), g)"
| "set_attributes ((key, col) # rest) g =
     (case vs_assign key col g of
        Inl err \<Rightarrow> (Inl err, g)
      | Inr g' \<Rightarrow> set_attributes rest g')"

text \<open>
  \<^verbatim>\<open>create_from_connections_undirected\<close> (lines 34-96). The result is the outcome, the
  object afterwards and the caller's list afterwards. \<^verbatim>\<open>self.graph\<close> is replaced at line
  91; reading \<^verbatim>\<open>vs['name']\<close> at line 96 raises \<^verbatim>\<open>KeyError\<close> when no such attribute was
  set.
\<close>

definition init_state :: build_state where
  "init_state = \<lparr>vertex_properties = [], vertex_name_to_ind = [],
                 vertex_index_connections = [], vertices_so_far = 0\<rparr>"

definition create_from_connections_undirected ::
  "LocalGraph \<Rightarrow> endpoint list list \<Rightarrow> (error + unit) \<times> LocalGraph \<times> endpoint list list" where
  "create_from_connections_undirected self vertex_connections =
     (case process_connections init_state vertex_connections of
        (Inl err, conns') \<Rightarrow> (Inl err, self, conns')
      | (Inr st, conns') \<Rightarrow>
          (case igraph_Graph (vertex_index_connections st) of
             Inl err \<Rightarrow> (Inl err, self, conns')
           | Inr g0 \<Rightarrow>
               (case set_attributes (vertex_properties st) g0 of
                  (Inl err, g1) \<Rightarrow> (Inl err, self\<lparr>graph := g1\<rparr>, conns')
                | (Inr _, g1) \<Rightarrow>
                    (case map_of (vs g1) ''name'' of
                       None \<Rightarrow>
                         (Inl (KeyError ''Attribute does not exist''), self\<lparr>graph := g1\<rparr>, conns')
                     | Some names \<Rightarrow>
                         (case vs_assign ''label'' names g1 of
                            Inl err \<Rightarrow> (Inl err, self\<lparr>graph := g1\<rparr>, conns')
                          | Inr g2 \<Rightarrow> (Inr (), self\<lparr>graph := g2\<rparr>, conns'))))))"

text \<open>
  \<^verbatim>\<open>find_shortest_paths\<close> (lines 99-113) hands both names to the graph engine's
  \<^verbatim>\<open>get_all_shortest_paths\<close>, which is a parameter here: it returns paths as lists of
  vertex indices or raises.
\<close>

type_synonym engine = "Graph \<Rightarrow> string \<Rightarrow> string \<Rightarrow> error + nat list list"

definition find_shortest_paths ::
  "engine \<Rightarrow> LocalGraph \<Rightarrow> string \<Rightarrow> string \<Rightarrow> error + nat list list" where
  "find_shortest_paths get_all_shortest_paths self name1 name2 =
     get_all_shortest_paths (graph self) name1 name2"

text \<open>
  The endpoint as line 70 leaves it: \<^verbatim>\<open>properties['type'] = [type]\<close>, every other entry
  as it was.
\<close>

definition inject_type :: "endpoint \<Rightarrow> endpoint" where
  "inject_type e = e\<lparr>properties := AList.update ''type'' [ep_type e] (properties e)\<rparr>"

text \<open>
  The input format: \<^verbatim>\<open>properties\<close> has a \<^verbatim>\<open>name\<close> key and no key maps to an empty
  list.
\<close>

definition well_formed_endpoint :: "endpoint \<Rightarrow> bool" where
  "well_formed_endpoint e \<longleftrightarrow>
     map_of (properties e) ''name'' \<noteq> None \<and> list_all (\<lambda>(key, vals). vals \<noteq> []) (properties e)"

text \<open>
  The attribute values stored for the vertex of index \<open>i\<close>: entry \<open>i\<close> of each column
  that reaches that far.
\<close>

definition stored_bag :: "Graph \<Rightarrow> nat \<Rightarrow> (string \<times> string) list" where
  "stored_bag g i =
     concat (map (\<lambda>(key, col). if i < length col then [(key, col ! i)] else []) (vs g))"

text \<open>
  A graph engine for concrete runs. Like igraph's \<^verbatim>\<open>get_all_shortest_paths\<close> it resolves
  a name through the \<^verbatim>\<open>name\<close> attribute and raises \<^verbatim>\<open>ValueError\<close> for a name that no
  vertex has; the paths are the walks of least length between the two vertices, edges
  taken in both directions.
\<close>

fun index_of :: "string \<Rightarrow> string list \<Rightarrow> nat option" where
  "index_of nm [] = None"
| "index_of nm (x # xs) =
     (if x = nm then Some 0 else (case index_of nm xs of None \<Rightarrow> None | Some i \<Rightarrow> Some (Suc i)))"

definition vertex_of_name :: "Graph \<Rightarrow> string \<Rightarrow> nat option" where
  "vertex_of_name g nm = (case map_of (vs g) ''name'' of None \<Rightarrow> None | Some names \<Rightarrow> index_of nm names)"

definition neighbours :: "(nat \<times> nat) list \<Rightarrow> nat \<Rightarrow> nat list" where
  "neighbours E v =
     concat (map (\<lambda>(a, b). (if a = v then [b] else []) @ (if b = v \<and> a \<noteq> b then [a] else [])) E)"

fun walks :: "(nat \<times> nat) list \<Rightarrow> nat \<Rightarrow> nat \<Rightarrow> nat list list" where
  "walks E 0 v = [[v]]"
| "walks E (Suc k) v = concat (map (\<lambda>u. map ((#) v) (walks E k u)) (neighbours E v))"

fun shortest_from :: "(nat \<times> nat) list \<Rightarrow> nat \<Rightarrow> nat \<Rightarrow> nat \<Rightarrow> nat \<Rightarrow> nat list list" where
  "shortest_from E 0 k v w = []"
| "shortest_from E (Suc fuel) k v w =
     (let ps = filter (\<lambda>p. last p = w) (walks E k v)
      in if ps \<noteq> [] then ps else shortest_from E fuel (Suc k) v w)"

definition igraph_get_all_shortest_paths :: engine where
  "igraph_get_all_shortest_paths g name1 name2 =
     (case vertex_of_name g name1 of
        None \<Rightarrow> Inl (ValueError ''no such vertex'')
      | Some v \<Rightarrow>
          (case vertex_of_name g name2 of
             None \<Rightarrow> Inl (ValueError ''no such vertex'')
           | Some w \<Rightarrow> Inr (shortest_from (es g) (vcount g) 0 v w)))"

text \<open>\<^verbatim>\<open>properties['name'][0]\<close> (line 73) of an endpoint that has it.\<close>

definition endpoint_name :: "endpoint \<Rightarrow> string" where
  "endpoint_name e = (case map_of (properties e) ''name'' of Some (nm # _) \<Rightarrow> nm | _ \<Rightarrow> [])"

text \<open>
  What holds of the local variables at every point of the loops: the indices given out
  are \<open>0\<close> up to \<open>vertices_so_far\<close>, one for each name seen; each of them occurs in
  \<^verbatim>\<open>indices\<close> or in a connection already recorded; once there is a vertex there is
  a column of names; and no column is empty.
\<close>

definition used_indices :: "build_state \<Rightarrow> nat list \<Rightarrow> nat set" where
  "used_indices st indices = set indices \<union> set (concat (vertex_index_connections st))"

definition consistent :: "build_state \<Rightarrow> nat list \<Rightarrow> bool" where
  "consistent st indices \<longleftrightarrow>
     map snd (vertex_name_to_ind st) = [0..<vertices_so_far st] \<and>
     distinct (map fst (vertex_name_to_ind st)) \<and>
     used_indices st indices = {0..<vertices_so_far st} \<and>
     (vertices_so_far st > 0 \<longrightarrow> map_of (vertex_properties st) ''name'' \<noteq> None) \<and>
     list_all (\<lambda>(key, col). col \<noteq> []) (vertex_properties st)"

text \<open>
  A regular-expression engine for concrete runs: a pattern of letters and digits matches
  exactly itself, and a pattern with an opening parenthesis that is never closed does
  not compile.
\<close>

definition literal_re :: re_engine where
  "literal_re p = (if CHR ''('' \<in> set p \<and> CHR '')'' \<notin> set p then None else Some (\<lambda>s. s = p))"

section \<open>Strings\<close>

lemma is_prefix_append: "is_prefix s (s @ b)"
  by (induction s) simp_all

lemma containing_prefix: "is_prefix s t \<Longrightarrow> containing s t"
  by (cases t) (auto elim: is_prefix.elims)

lemma containing_append_left: "containing s t \<Longrightarrow> containing s (a @ t)"
proof (induction a)
  case Nil
  then show ?case by simp
next
  case (Cons c a)
  then show ?case by simp
qed

lemma containing_middle: "containing s (a @ s @ b)"
  by (rule containing_append_left) (rule containing_prefix, rule is_prefix_append)

lemma containing_start: "containing s (s @ b)"
  using containing_middle [of s "[]" b] by simp

section \<open>Property: validation and representation\<close>

lemma check_values_all_match:
  "rx (allowed_regex T) = Some fm \<Longrightarrow> list_all fm v \<Longrightarrow> check_values rx T (map PStr v) = Inr ()"
  by (induction v) simp_all

lemma check_values_first_mismatch:
  "rx (allowed_regex T) = Some fm \<Longrightarrow> list_all fm pre \<Longrightarrow> \<not> fm s \<Longrightarrow>
   check_values rx T (map PStr (pre @ s # post)) = Inl (ValueError (regex_message s T))"
  by (induction pre) simp_all

lemma first_mismatch_exists:
  "\<not> list_all fm strs \<Longrightarrow> \<exists>pre s post. strs = pre @ s # post \<and> list_all fm pre \<and> \<not> fm s"
proof (induction strs)
  case Nil
  then show ?case by simp
next
  case (Cons a strs)
  show ?case
  proof (cases "fm a")
    case True
    with Cons obtain pre s post where "strs = pre @ s # post" "list_all fm pre" "\<not> fm s"
      by auto
    with True have "a # strs = (a # pre) @ s # post \<and> list_all fm (a # pre) \<and> \<not> fm s"
      by simp
    then show ?thesis by blast
  next
    case False
    then have "a # strs = [] @ a # strs \<and> list_all fm [] \<and> \<not> fm a"
      by simp
    then show ?thesis by blast
  qed
qed

text \<open>
  C3. For a well-formed property type \<open>T\<close> and a list \<open>v\<close> of strings of length
  \<open>n_values T\<close>, each fully matching \<open>allowed_regex T\<close>, constructing the property with
  \<open>type = T\<close> and \<open>values = v\<close> succeeds, and \<open>as_dict\<close> of the result holds exactly \<open>v\<close>
  and the name, units, regex, n_values and comments of \<open>T\<close>. Both are functions of their
  arguments alone.
\<close>

theorem property_roundtrip:
  assumes "well_formed rx T"
    and "rx (allowed_regex T) = Some fm"
    and "list_all fm v"
    and "int (length v) = n_values T"
  shows "\<exists>p. Property_init rx \<lparr>kw_type = Some T, kw_values = Some (PList (map PStr v))\<rparr> = Inr p \<and>
             as_dict p =
               \<lparr>d_values = map PStr v,
                d_type = \<lparr>d_name = name T, d_units = units T, d_allowed_regex = allowed_regex T,
                          d_n_values = n_values T, d_comments = comments T\<rparr>\<rparr>"
proof -
  have "check_values rx T (map PStr v) = Inr ()"
    using assms(2,3) by (rule check_values_all_match)
  with assms(4) have "validate rx \<lparr>kw_type = Some T, kw_values = Some (PList (map PStr v))\<rparr> = Inr ()"
    by (simp add: validate_def)
  then show ?thesis
    by (simp add: Property_init_def as_dict_def PropertyType_as_dict_def)
qed

theorem property_roundtrip_witness:
  "\<exists>p. Property_init literal_re
          \<lparr>kw_type = Some \<lparr>name = ''colour'', units = '''', allowed_regex = ''red'', n_values = 2,
                           allowed_types = [''antenna''], comments = ''''\<rparr>,
           kw_values = Some (PList (map PStr [''red'', ''red'']))\<rparr> = Inr p \<and>
       as_dict p =
         \<lparr>d_values = [PStr ''red'', PStr ''red''],
          d_type = \<lparr>d_name = ''colour'', d_units = '''', d_allowed_regex = ''red'',
                    d_n_values = 2, d_comments = ''''\<rparr>\<rparr>"
  using property_roundtrip [of literal_re
      "\<lparr>name = ''colour'', units = '''', allowed_regex = ''red'', n_values = 2,
        allowed_types = [''antenna''], comments = ''''\<rparr>" "\<lambda>s. s = ''red''" "[''red'', ''red'']"]
  by (simp add: well_formed_def list_len_def literal_re_def)

text \<open>
  C4, as stated, fails: a value that does not match makes the construction fail with the
  arity error when the number of values is wrong too, since the arity is checked first.
  Here the type wants one value matching \<open>red\<close> and gets \<open>blue\<close> twice.
\<close>

theorem mismatch_with_wrong_arity_counterexample:
  "(case literal_re ''red'' of None \<Rightarrow> False | Some fm \<Rightarrow> \<not> fm ''blue'') \<and>
   validate literal_re
     \<lparr>kw_type = Some \<lparr>name = ''colour'', units = '''', allowed_regex = ''red'', n_values = 1,
                      allowed_types = [''antenna''], comments = ''''\<rparr>,
      kw_values = Some (PList [PStr ''blue'', PStr ''blue''])\<rparr>
     = Inl (TypeError ''1 value is required.'') \<and>
   Property_init literal_re
     \<lparr>kw_type = Some \<lparr>name = ''colour'', units = '''', allowed_regex = ''red'', n_values = 1,
                      allowed_types = [''antenna''], comments = ''''\<rparr>,
      kw_values = Some (PList [PStr ''blue'', PStr ''blue''])\<rparr>
     = Inl (TypeError ''1 value is required.'')"
  by (simp add: literal_re_def validate_def Property_init_def arity_message_def str_int_def
      str_nat.simps digit_char_def)

text \<open>
  C4, amended. When the values are strings, their number is \<open>n_values\<close> of the type, the
  pattern of the type compiles and some value does not fully match it, the check run by
  the initialiser, and with it the construction, fails with a \<open>ValueError\<close> for the first
  such value; its message contains that value, the name of the type and the pattern.
  Here \<open>s\<close> is the first value that does not match: the values \<open>pre\<close> before it all
  match, and what comes after it, \<open>post\<close>, is free. By \<open>first_mismatch_exists\<close> every
  list with a value that does not match is of this form. The check is a function of the
  keyword arguments alone: it has no store to write to.
\<close>

theorem mismatch_raises_value_error:
  assumes "kw_type kw = Some T"
    and "kw_values kw = Some v"
    and "coerce_values v = map PStr (pre @ s # post)"
    and "int (length (pre @ s # post)) = n_values T"
    and "rx (allowed_regex T) = Some fm"
    and "list_all fm pre"
    and "\<not> fm s"
  shows "validate rx kw = Inl (ValueError (regex_message s T)) \<and>
         Property_init rx kw = Inl (ValueError (regex_message s T)) \<and>
         containing s (regex_message s T) \<and>
         containing (name T) (regex_message s T) \<and>
         containing (allowed_regex T) (regex_message s T)"
proof -
  have "check_values rx T (map PStr (pre @ s # post)) = Inl (ValueError (regex_message s T))"
    using assms(5-7) by (rule check_values_first_mismatch)
  then have v: "validate rx kw = Inl (ValueError (regex_message s T))"
    using assms(1-4) by (simp add: validate_def)
  then have p: "Property_init rx kw = Inl (ValueError (regex_message s T))"
    by (simp add: Property_init_def)
  have c1: "containing s (regex_message s T)"
    unfolding regex_message_def by (rule containing_middle)
  have c2: "containing (name T) (regex_message s T)"
    using containing_middle [of "name T" "''Property with value '' @ s @ '' of type ''"
        "'' does not match regex '' @ allowed_regex T @ ''.''"]
    by (simp add: regex_message_def)
  have c3: "containing (allowed_regex T) (regex_message s T)"
    using containing_middle [of "allowed_regex T"
        "''Property with value '' @ s @ '' of type '' @ name T @ '' does not match regex ''" "''.''"]
    by (simp add: regex_message_def)
  from v p c1 c2 c3 show ?thesis by simp
qed

theorem mismatch_raises_value_error_witness:
  "validate literal_re
     \<lparr>kw_type = Some \<lparr>name = ''colour'', units = '''', allowed_regex = ''red'', n_values = 3,
                      allowed_types = [''antenna''], comments = ''''\<rparr>,
      kw_values = Some (PList [PStr ''red'', PStr ''blue'', PStr ''green''])\<rparr>
     = Inl (ValueError ''Property with value blue of type colour does not match regex red.'') \<and>
   Property_init literal_re
     \<lparr>kw_type = Some \<lparr>name = ''colour'', units = '''', allowed_regex = ''red'', n_values = 3,
                      allowed_types = [''antenna''], comments = ''''\<rparr>,
      kw_values = Some (PList [PStr ''red'', PStr ''blue'', PStr ''green''])\<rparr>
     = Inl (ValueError ''Property with value blue of type colour does not match regex red.'')"
  using mismatch_raises_value_error [of
      "\<lparr>kw_type = Some \<lparr>name = ''colour'', units = '''', allowed_regex = ''red'', n_values = 3,
                        allowed_types = [''antenna''], comments = ''''\<rparr>,
        kw_values = Some (PList [PStr ''red'', PStr ''blue'', PStr ''green''])\<rparr>"
      "\<lparr>name = ''colour'', units = '''', allowed_regex = ''red'', n_values = 3,
        allowed_types = [''antenna''], comments = ''''\<rparr>"
      "PList [PStr ''red'', PStr ''blue'', PStr ''green'']" "[''red'']" "''blue''" "[''green'']"
      literal_re "\<lambda>s. s = ''red''"]
  by (simp add: literal_re_def regex_message_def)

text \<open>
  C5, as stated, fails: the message of the arity error gives the expected number only.
  For a type of two values and one value passed it is \<open>2 values are required.\<close>, where
  the actual number, 1, does not occur.
\<close>

theorem arity_message_counterexample:
  "validate literal_re
     \<lparr>kw_type = Some \<lparr>name = ''colour'', units = '''', allowed_regex = ''red'', n_values = 2,
                      allowed_types = [''antenna''], comments = ''''\<rparr>,
      kw_values = Some (PList [PStr ''red''])\<rparr>
     = Inl (TypeError ''2 values are required.'') \<and>
   str_int (int (length [PStr ''red''])) = ''1'' \<and>
   \<not> containing ''1'' ''2 values are required.''"
  by (simp add: validate_def arity_message_def str_int_def str_nat.simps digit_char_def)

lemma validate_arity:
  "kw_type kw = Some T \<Longrightarrow> kw_values kw = Some v \<Longrightarrow> int (length (coerce_values v)) \<noteq> n_values T \<Longrightarrow>
   validate rx kw = Inl (TypeError (arity_message (n_values T)))"
  by (simp add: validate_def)

text \<open>
  C5, amended. When the values, coerced to a list, are not \<open>n_values\<close> of the type in
  number, the check run by the initialiser, and with it the construction, fails with a
  \<open>TypeError\<close> (the arity error) whose message starts with the expected number.
\<close>

theorem wrong_arity_raises_type_error:
  assumes "kw_type kw = Some T"
    and "kw_values kw = Some v"
    and "int (length (coerce_values v)) \<noteq> n_values T"
  shows "validate rx kw = Inl (TypeError (arity_message (n_values T))) \<and>
         Property_init rx kw = Inl (TypeError (arity_message (n_values T))) \<and>
         is_prefix (str_int (n_values T)) (arity_message (n_values T)) \<and>
         containing (str_int (n_values T)) (arity_message (n_values T))"
proof -
  have v: "validate rx kw = Inl (TypeError (arity_message (n_values T)))"
    using assms by (rule validate_arity)
  then have p: "Property_init rx kw = Inl (TypeError (arity_message (n_values T)))"
    by (simp add: Property_init_def)
  have "is_prefix (str_int (n_values T)) (arity_message (n_values T))"
    unfolding arity_message_def by (rule is_prefix_append)
  moreover have "containing (str_int (n_values T)) (arity_message (n_values T))"
    unfolding arity_message_def by (rule containing_start)
  ultimately show ?thesis using v p by simp
qed

theorem wrong_arity_raises_type_error_witness:
  "validate literal_re
     \<lparr>kw_type = Some \<lparr>name = ''colour'', units = '''', allowed_regex = ''red'', n_values = 3,
                      allowed_types = [''antenna''], comments = ''''\<rparr>,
      kw_values = Some (PStr ''red'')\<rparr>
     = Inl (TypeError ''3 values are required.'')"
  using wrong_arity_raises_type_error [of
      "\<lparr>kw_type = Some \<lparr>name = ''colour'', units = '''', allowed_regex = ''red'', n_values = 3,
                        allowed_types = [''antenna''], comments = ''''\<rparr>,
        kw_values = Some (PStr ''red'')\<rparr>"
      "\<lparr>name = ''colour'', units = '''', allowed_regex = ''red'', n_values = 3,
        allowed_types = [''antenna''], comments = ''''\<rparr>"
      "PStr ''red''" literal_re]
  by (simp add: arity_message_def str_int_def str_nat.simps digit_char_def)

lemma coerce_scalar: "\<not> isinstance_list s \<Longrightarrow> coerce_values s = [s]"
  by (cases s) simp_all

text \<open>
  C6. For a value \<open>s\<close> that is not a list, constructing a property with \<open>values = s\<close>
  and with \<open>values = [s]\<close> gives the same outcome of the check, the same property or the
  same error, and the same \<open>as_dict\<close>.
\<close>

theorem scalar_as_singleton:
  assumes "\<not> isinstance_list s"
  shows "validate rx (kw\<lparr>kw_values := Some s\<rparr>) = validate rx (kw\<lparr>kw_values := Some (PList [s])\<rparr>) \<and>
         Property_init rx (kw\<lparr>kw_values := Some s\<rparr>) =
           Property_init rx (kw\<lparr>kw_values := Some (PList [s])\<rparr>) \<and>
         map_sum id as_dict (Property_init rx (kw\<lparr>kw_values := Some s\<rparr>)) =
           map_sum id as_dict (Property_init rx (kw\<lparr>kw_values := Some (PList [s])\<rparr>))"
proof -
  have c: "coerce_values s = coerce_values (PList [s])"
    using assms by (simp add: coerce_scalar)
  have v: "validate rx (kw\<lparr>kw_values := Some s\<rparr>) = validate rx (kw\<lparr>kw_values := Some (PList [s])\<rparr>)"
    unfolding validate_def using c by simp
  have "Property_init rx (kw\<lparr>kw_values := Some s\<rparr>) =
        Property_init rx (kw\<lparr>kw_values := Some (PList [s])\<rparr>)"
    using c v by (cases "kw_type kw") (simp_all add: Property_init_def split: sum.splits)
  with v show ?thesis by simp
qed

theorem scalar_as_singleton_witness:
  "Property_init literal_re
     \<lparr>kw_type = Some \<lparr>name = ''colour'', units = '''', allowed_regex = ''red'', n_values = 1,
                      allowed_types = [''antenna''], comments = ''''\<rparr>,
      kw_values = Some (PStr ''red'')\<rparr>
   = Property_init literal_re
     \<lparr>kw_type = Some \<lparr>name = ''colour'', units = '''', allowed_regex = ''red'', n_values = 1,
                      allowed_types = [''antenna''], comments = ''''\<rparr>,
      kw_values = Some (PList [PStr ''red''])\<rparr> \<and>
   Property_init literal_re
     \<lparr>kw_type = Some \<lparr>name = ''colour'', units = '''', allowed_regex = ''red'', n_values = 1,
                      allowed_types = [''antenna''], comments = ''''\<rparr>,
      kw_values = Some (PStr ''red'')\<rparr>
   = Inr \<lparr>type = \<lparr>name = ''colour'', units = '''', allowed_regex = ''red'', n_values = 1,
                    allowed_types = [''antenna''], comments = ''''\<rparr>,
          values = [PStr ''red'']\<rparr>"
  using scalar_as_singleton [of "PStr ''red''" literal_re
      "\<lparr>kw_type = Some \<lparr>name = ''colour'', units = '''', allowed_regex = ''red'', n_values = 1,
                        allowed_types = [''antenna''], comments = ''''\<rparr>,
        kw_values = None\<rparr>"]
  by (simp add: Property_init_def validate_def literal_re_def)

section \<open>PropertyType: construction and counting\<close>

text \<open>
  C9. Constructing a property type with \<open>n_values\<close> below 1, with no allowed type, or
  with a pattern that does not compile signals a \<open>SchemaError\<close>; the three invariants
  are checked by the construction itself.
\<close>

theorem schema_error_on_violation:
  assumes "nv < 1 \<or> ats = [] \<or> rx (case re of None \<Rightarrow> ''.*'' | Some r \<Rightarrow> r) = None"
  shows "PropertyType_init rx nm un re nv ats cm = Inl SchemaError"
  using assms by (auto simp: PropertyType_init_def well_formed_def list_len_def Let_def)

theorem schema_error_on_violation_witness:
  "PropertyType_init literal_re ''colour'' None None 0 [''antenna''] None = Inl SchemaError \<and>
   PropertyType_init literal_re ''colour'' None None 1 [] None = Inl SchemaError \<and>
   PropertyType_init literal_re ''colour'' None (Some ''(red'') 1 [''antenna''] None = Inl SchemaError"
  using schema_error_on_violation [of 0 "[''antenna'']" literal_re None "''colour''" None None]
    schema_error_on_violation [of 1 "[]" literal_re None "''colour''" None None]
    schema_error_on_violation [of 1 "[''antenna'']" literal_re "Some ''(red''" "''colour''" None None]
  by (simp add: literal_re_def)

lemma property_type_init_ok:
  "1 \<le> nv \<Longrightarrow> ats \<noteq> [] \<Longrightarrow> length ats \<le> 10 ^ 10 \<Longrightarrow>
   rx (case re of None \<Rightarrow> ''.*'' | Some r \<Rightarrow> r) \<noteq> None \<Longrightarrow>
   \<exists>T. PropertyType_init rx nm un re nv ats cm = Inr T \<and> well_formed rx T \<and> name T = nm \<and>
       n_values T = nv \<and> allowed_types T = ats"
  by (auto simp: PropertyType_init_def well_formed_def list_len_def Let_def Suc_le_eq)

lemma filter_loop_malformed:
  "\<exists>f \<in> set fs. length f \<noteq> 2 \<Longrightarrow> filter_loop allowed ands fs = Inl AssertionError"
  by (induction fs arbitrary: ands) (auto simp: Let_def)

text \<open>
  C8. When some filter tuple does not have length 2, \<open>get_count\<close> fails on the assertion
  of line 77 (the invalid-argument error): the result is the error, and no count is taken
  from the store.
\<close>

theorem get_count_malformed_filter:
  assumes "\<exists>f \<in> set fs. length f \<noteq> 2"
  shows "get_count allowed g (Some fs) = Inl AssertionError"
  using filter_loop_malformed [OF assms, of allowed "[]"] by (simp add: get_count_def)

theorem get_count_malformed_filter_witness:
  "get_count ''rel_property_allowed_type'' \<lparr>vertices = [], edges = []\<rparr>
     (Some [[''volt'', ''''], [''volt'']]) = Inl AssertionError"
  using get_count_malformed_filter
    [of "[[''volt'', ''''], [''volt'']]" "''rel_property_allowed_type''" "\<lparr>vertices = [], edges = []\<rparr>"]
  by simp

lemma length_contents_of: "length (contents_of allowed f) > 0 \<longleftrightarrow> \<not> blank f"
  by (simp add: contents_of_def blank_def)

lemma filter_loop_ok:
  "\<forall>f \<in> set fs. length f = 2 \<Longrightarrow>
   filter_loop allowed ands fs =
     Inr (ands @ map (\<lambda>f. And_steps (contents_of allowed f)) (filter (\<lambda>f. \<not> blank f) fs))"
proof (induction fs arbitrary: ands)
  case Nil
  then show ?case by simp
next
  case (Cons f fs)
  then show ?case
    using length_contents_of [of allowed f] by (simp add: Let_def)
qed

lemma sat_contents_of:
  "sat g (And_steps (contents_of allowed f)) x = filter_matches allowed g f x"
  by (simp add: contents_of_def filter_matches_def name_contains_def permitted_on_def list_ex_iff)

lemma sat_base:
  "list_all (\<lambda>t. sat g t x) [Has ''active'' (VBool True), Has ''category'' (VStr category)] =
   active_property_type x"
  by (simp add: active_property_type_def)

text \<open>
  C1, as stated, fails: a filter with both elements empty does not make every active
  property type match. It is left out of the disjunction, so next to another filter it
  counts nothing. The store has one active property type, named \<open>Current\<close>.
\<close>

theorem empty_filter_among_others_counterexample:
  "get_count ''rel_property_allowed_type''
     \<lparr>vertices = [\<lparr>vid = 0, vprops = [(''active'', VBool True), (''category'', VStr ''property_type''),
                                       (''name'', VStr ''Current'')]\<rparr>],
      edges = []\<rparr>
     (Some [['''', ''''], [''volt'', '''']]) = Inr 0 \<and>
   spec_count ''rel_property_allowed_type''
     \<lparr>vertices = [\<lparr>vid = 0, vprops = [(''active'', VBool True), (''category'', VStr ''property_type''),
                                       (''name'', VStr ''Current'')]\<rparr>],
      edges = []\<rparr>
     [['''', ''''], [''volt'', '''']] = 1"
  by (simp add: get_count_def contents_of_def count_next_def category_def spec_count_def
      active_property_type_def filter_matches_def Let_def)

text \<open>
  C1, amended. For a list of 2-element filters, \<open>get_count\<close> returns the number of
  active property types that match one of the filters that have a non-empty element,
  a filter being the conjunction of "the name contains the substring" and "permitted on
  an owner type of that name" with the clause of an empty string skipped. Filters with
  both elements empty are left out; when no other filter is given (the empty list
  included), the result is the number of all active property types.
\<close>

theorem get_count_disjunction:
  assumes "\<forall>f \<in> set fs. length f = 2"
  shows "get_count allowed g (Some fs) =
           Inr (length (filter
                  (\<lambda>x. active_property_type x \<and>
                       (list_all blank fs \<or>
                        list_ex (\<lambda>f. \<not> blank f \<and> filter_matches allowed g f x) fs))
                  (vertices g)))"
proof -
  let ?ne = "filter (\<lambda>f. \<not> blank f) fs"
  let ?ands = "map (\<lambda>f. And_steps (contents_of allowed f)) ?ne"
  have loop: "filter_loop allowed [] fs = Inr ?ands"
    using filter_loop_ok [OF assms, of allowed "[]"] by simp
  have or: "sat g (Or_steps ?ands) x = list_ex (\<lambda>f. \<not> blank f \<and> filter_matches allowed g f x) fs" for x
    by (simp add: list_ex_iff sat_contents_of del: sat.simps(4)) blast
  show ?thesis
  proof (cases "?ne = []")
    case True
    then have "list_all blank fs"
      by (simp add: list_all_iff filter_empty_conv)
    with True loop show ?thesis
      using sat_base [of g] by (simp add: get_count_def count_next_def del: sat.simps)
  next
    case False
    then have "\<not> list_all blank fs"
      by (simp add: list_all_iff filter_empty_conv)
    with False loop show ?thesis
      using sat_base [of g] or by (simp add: get_count_def count_next_def del: sat.simps)
  qed
qed

theorem get_count_disjunction_witness:
  "get_count ''rel_property_allowed_type''
     \<lparr>vertices = [\<lparr>vid = 0, vprops = [(''active'', VBool True), (''category'', VStr ''property_type''),
                                       (''name'', VStr ''Voltage'')]\<rparr>,
                  \<lparr>vid = 1, vprops = [(''active'', VBool True), (''category'', VStr ''property_type''),
                                       (''name'', VStr ''Current'')]\<rparr>,
                  \<lparr>vid = 2, vprops = [(''active'', VBool True), (''category'', VStr ''component_type''),
                                       (''name'', VStr ''antenna'')]\<rparr>],
      edges = [\<lparr>elabel = ''rel_property_allowed_type'', outV = 1, inV = 2\<rparr>]\<rparr>
     (Some [[''olt'', ''''], ['''', ''dish'']]) = Inr 1"
  using get_count_disjunction
    [of "[[''olt'', ''''], ['''', ''dish'']]" "''rel_property_allowed_type''"
      "\<lparr>vertices = [\<lparr>vid = 0, vprops = [(''active'', VBool True), (''category'', VStr ''property_type''),
                                       (''name'', VStr ''Voltage'')]\<rparr>,
                  \<lparr>vid = 1, vprops = [(''active'', VBool True), (''category'', VStr ''property_type''),
                                       (''name'', VStr ''Current'')]\<rparr>,
                  \<lparr>vid = 2, vprops = [(''active'', VBool True), (''category'', VStr ''component_type''),
                                       (''name'', VStr ''antenna'')]\<rparr>],
      edges = [\<lparr>elabel = ''rel_property_allowed_type'', outV = 1, inV = 2\<rparr>]\<rparr>"]
  by (simp add: blank_def active_property_type_def category_def filter_matches_def
      name_contains_def permitted_on_def both_def)

section \<open>LocalGraph: building and querying\<close>

lemma list_all_update:
  "P (k, v) \<Longrightarrow> list_all P al \<Longrightarrow> list_all P (AList.update k v al)"
  by (induction al) auto

lemma map_of_list_all:
  "map_of al k = Some v \<Longrightarrow> list_all P al \<Longrightarrow> P (k, v)"
  by (auto simp: list_all_iff dest: map_of_SomeD)

lemma copy_properties_ok:
  "list_all (\<lambda>(key, vals). vals \<noteq> []) items \<Longrightarrow> \<exists>vp'. copy_properties items vp = Inr vp'"
proof (induction items arbitrary: vp)
  case Nil
  then show ?case by simp
next
  case (Cons item items)
  obtain key vals where item: "item = (key, vals)" by (cases item)
  with Cons.prems obtain v rest where vals: "vals = v # rest" by (cases vals) auto
  from Cons.prems have "list_all (\<lambda>(key, vals). vals \<noteq> []) items" by simp
  from Cons.IH [OF this] show ?case
    by (simp add: item vals Let_def)
qed

lemma process_endpoint_input: "snd (process_endpoint st e) = inject_type e"
  by (simp add: process_endpoint_def inject_type_def Let_def split: option.splits list.splits sum.splits)

lemma process_endpoint_ok:
  assumes "well_formed_endpoint e"
  shows "\<exists>st' i. process_endpoint st e = (Inr (st', i), inject_type e)"
proof -
  let ?props = "AList.update ''type'' [ep_type e] (properties e)"
  from assms obtain vals where vals: "map_of (properties e) ''name'' = Some vals"
    by (auto simp: well_formed_endpoint_def)
  with assms have "vals \<noteq> []"
    using map_of_list_all [of "properties e" "''name''" vals "\<lambda>(key, vals). vals \<noteq> []"]
    by (simp add: well_formed_endpoint_def)
  then obtain nm rest where nm: "vals = nm # rest" by (cases vals) auto
  have name: "map_of ?props ''name'' = Some (nm # rest)"
    using vals nm by (simp add: update_conv')
  have "list_all (\<lambda>(key, vals). vals \<noteq> []) ?props"
    using assms by (intro list_all_update) (simp_all add: well_formed_endpoint_def)
  then obtain vp where vp: "copy_properties ?props (vertex_properties st) = Inr vp"
    using copy_properties_ok by blast
  show ?thesis
    using name vp
    by (cases "map_of (vertex_name_to_ind st) nm")
       (simp_all add: process_endpoint_def inject_type_def Let_def)
qed

lemma process_pair_ok:
  "list_all well_formed_endpoint pair \<Longrightarrow>
   \<exists>st' indices'. process_pair st indices pair = (Inr (st', indices'), map inject_type pair)"
proof (induction pair arbitrary: st indices)
  case Nil
  then show ?case by simp
next
  case (Cons e pair)
  from Cons.prems have "well_formed_endpoint e" by simp
  then obtain st1 i where e: "process_endpoint st e = (Inr (st1, i), inject_type e)"
    using process_endpoint_ok by blast
  from Cons.prems have "list_all well_formed_endpoint pair" by simp
  from Cons.IH [OF this, of st1 "indices @ [i]"] e show ?case by auto
qed

lemma process_connections_ok:
  "list_all (list_all well_formed_endpoint) conns \<Longrightarrow>
   \<exists>st'. process_connections st conns = (Inr st', map (map inject_type) conns)"
proof (induction conns arbitrary: st)
  case Nil
  then show ?case by simp
next
  case (Cons pair conns)
  from Cons.prems have "list_all well_formed_endpoint pair" by simp
  then obtain st1 indices where p: "process_pair st [] pair = (Inr (st1, indices), map inject_type pair)"
    using process_pair_ok by blast
  from Cons.prems have "list_all (list_all well_formed_endpoint) conns" by simp
  from Cons.IH [OF this, of "st1\<lparr>vertex_index_connections := vertex_index_connections st1 @ [indices]\<rparr>"] p
  show ?case by auto
qed

lemma create_input:
  "snd (snd (create_from_connections_undirected self conns)) = snd (process_connections init_state conns)"
  by (simp add: create_from_connections_undirected_def Let_def split: prod.splits sum.splits option.splits)

lemma inject_type_fixed:
  "inject_type e = e \<longleftrightarrow> map_of (properties e) ''type'' = Some [ep_type e]"
proof
  assume "inject_type e = e"
  then have "properties (inject_type e) = properties e"
    by simp
  then have "map_of (AList.update ''type'' [ep_type e] (properties e)) ''type'' = map_of (properties e) ''type''"
    by (simp add: inject_type_def)
  then show "map_of (properties e) ''type'' = Some [ep_type e]"
    by (simp add: update_conv')
next
  assume "map_of (properties e) ''type'' = Some [ep_type e]"
  then show "inject_type e = e"
    by (simp add: inject_type_def update_triv)
qed

lemma inject_type_frame:
  "ep_type (inject_type e) = ep_type e \<and>
   map_of (properties (inject_type e)) ''type'' = Some [ep_type e] \<and>
   (k \<noteq> ''type'' \<longrightarrow> map_of (properties (inject_type e)) k = map_of (properties e) k)"
  by (simp add: inject_type_def update_conv')

lemma map_fixed_iff: "map f xs = xs \<longleftrightarrow> (\<forall>x \<in> set xs. f x = x)"
  by (induction xs) auto

text \<open>
  C10, as stated, fails in two ways. A list whose endpoints already carry
  \<^verbatim>\<open>'type'\<close> with the one-element list of their label, as every list does after a first
  build, is left exactly as it was. And when an endpoint has no \<^verbatim>\<open>'name'\<close>, the call
  raises at that endpoint: it has got its \<^verbatim>\<open>'type'\<close> entry, the endpoints after it have
  not.
\<close>

theorem input_mutation_counterexample:
  "snd (snd (create_from_connections_undirected LocalGraph_init
     [[\<lparr>properties = [(''name'', [''A'']), (''type'', [''X''])], ep_type = ''X''\<rparr>,
       \<lparr>properties = [(''name'', [''B'']), (''type'', [''Y''])], ep_type = ''Y''\<rparr>]]))
   = [[\<lparr>properties = [(''name'', [''A'']), (''type'', [''X''])], ep_type = ''X''\<rparr>,
       \<lparr>properties = [(''name'', [''B'']), (''type'', [''Y''])], ep_type = ''Y''\<rparr>]] \<and>
   create_from_connections_undirected LocalGraph_init
     [[\<lparr>properties = [], ep_type = ''X''\<rparr>,
       \<lparr>properties = [(''name'', [''B''])], ep_type = ''Y''\<rparr>]]
   = (Inl (KeyError ''name''), LocalGraph_init,
      [[\<lparr>properties = [(''type'', [''X''])], ep_type = ''X''\<rparr>,
        \<lparr>properties = [(''name'', [''B''])], ep_type = ''Y''\<rparr>]])"
  by (simp add: create_from_connections_undirected_def init_state_def process_endpoint_def
      igraph_Graph_def vs_assign_def recycle_def LocalGraph_init_def Let_def)

text \<open>
  C10, amended. For a connection list in which every endpoint has a \<^verbatim>\<open>'name'\<close> and no
  empty value list, the call leaves the caller's records as the input with, in each
  endpoint, \<^verbatim>\<open>properties['type']\<close> set to the one-element list of the endpoint's type
  label, an earlier \<^verbatim>\<open>'type'\<close> entry overwritten; the input is left unchanged exactly
  when every endpoint held that entry already.
\<close>

theorem input_gets_type_entries:
  assumes "list_all (list_all well_formed_endpoint) conns"
  shows "snd (snd (create_from_connections_undirected self conns)) = map (map inject_type) conns \<and>
         list_all (list_all (\<lambda>e. map_of (properties e) ''type'' = Some [ep_type e]))
           (snd (snd (create_from_connections_undirected self conns))) \<and>
         (snd (snd (create_from_connections_undirected self conns)) = conns \<longleftrightarrow>
            list_all (list_all (\<lambda>e. map_of (properties e) ''type'' = Some [ep_type e])) conns)"
proof -
  from process_connections_ok [OF assms, of init_state]
  have out: "snd (snd (create_from_connections_undirected self conns)) = map (map inject_type) conns"
    by (auto simp: create_input)
  have typed: "list_all (list_all (\<lambda>e. map_of (properties e) ''type'' = Some [ep_type e]))
                 (map (map inject_type) conns)"
    by (simp add: list_all_iff inject_type_frame)
  have "map (map inject_type) conns = conns \<longleftrightarrow>
        list_all (list_all (\<lambda>e. map_of (properties e) ''type'' = Some [ep_type e])) conns"
    by (simp add: map_fixed_iff list_all_iff inject_type_fixed)
  with out typed show ?thesis by simp
qed

theorem input_gets_type_entries_witness:
  "snd (snd (create_from_connections_undirected LocalGraph_init
     [[\<lparr>properties = [(''name'', [''A'']), (''type'', [''old''])], ep_type = ''X''\<rparr>,
       \<lparr>properties = [(''name'', [''B''])], ep_type = ''Y''\<rparr>]]))
   = [[\<lparr>properties = [(''name'', [''A'']), (''type'', [''X''])], ep_type = ''X''\<rparr>,
       \<lparr>properties = [(''name'', [''B'']), (''type'', [''Y''])], ep_type = ''Y''\<rparr>]]"
  using input_gets_type_entries [of
      "[[\<lparr>properties = [(''name'', [''A'']), (''type'', [''old''])], ep_type = ''X''\<rparr>,
         \<lparr>properties = [(''name'', [''B''])], ep_type = ''Y''\<rparr>]]" LocalGraph_init]
  by (simp add: well_formed_endpoint_def inject_type_def)

subsection \<open>Vertices and edges of a build\<close>

lemma update_new_key: "map_of al k = None \<Longrightarrow> AList.update k v al = al @ [(k, v)]"
  by (induction al) (auto split: if_splits)

lemma index_in_range: "map snd al = [0..<n] \<Longrightarrow> map_of al k = Some i \<Longrightarrow> i < n"
proof -
  assume al: "map snd al = [0..<n]" and "map_of al k = Some i"
  then have "(k, i) \<in> set al" by (simp add: map_of_SomeD)
  then have "i \<in> set (map snd al)" by force
  with al show "i < n" by simp
qed

lemma copy_properties_column:
  "copy_properties items vp = Inr vp' \<Longrightarrow> k \<in> fst ` set items \<or> map_of vp k \<noteq> None \<Longrightarrow>
   map_of vp' k \<noteq> None"
proof (induction items arbitrary: vp)
  case Nil
  then show ?case by simp
next
  case (Cons item items)
  obtain key vals where item: "item = (key, vals)" by (cases item)
  from Cons.prems(1) item obtain v rest where vals: "vals = v # rest"
    by (cases vals) (simp_all add: Let_def)
  let ?vp1 = "if map_of vp key = None then AList.update key [] vp else vp"
  let ?vp2 = "AList.update key ((case map_of ?vp1 key of None \<Rightarrow> [] | Some col \<Rightarrow> col) @ [v]) ?vp1"
  from Cons.prems(1) have run: "copy_properties items ?vp2 = Inr vp'"
    by (simp add: item vals Let_def)
  have "k \<in> fst ` set items \<or> map_of ?vp2 k \<noteq> None"
    using Cons.prems(2) by (auto simp: item update_conv')
  with Cons.IH [OF run] show ?case by blast
qed

lemma copy_properties_nonempty:
  "copy_properties items vp = Inr vp' \<Longrightarrow> list_all (\<lambda>(key, col). col \<noteq> []) vp \<Longrightarrow>
   list_all (\<lambda>(key, col). col \<noteq> []) vp'"
proof (induction items arbitrary: vp)
  case Nil
  then show ?case by simp
next
  case (Cons item items)
  obtain key vals where item: "item = (key, vals)" by (cases item)
  from Cons.prems(1) item obtain v rest where vals: "vals = v # rest"
    by (cases vals) (simp_all add: Let_def)
  define vp2 where "vp2 =
    AList.update key
      ((case map_of (if map_of vp key = None then AList.update key [] vp else vp) key of
          None \<Rightarrow> [] | Some col \<Rightarrow> col) @ [v])
      (if map_of vp key = None then AList.update key [] vp else vp)"
  from Cons.prems(1) have run: "copy_properties items vp2 = Inr vp'"
    by (simp add: item vals Let_def vp2_def)
  have "list_all (\<lambda>(key, col). col \<noteq> []) vp2"
    using Cons.prems(2) by (auto simp: vp2_def update_conv' intro!: list_all_update)
  with Cons.IH [OF run] show ?case by blast
qed

lemma process_endpoint_step:
  assumes wf: "well_formed_endpoint e" and inv: "consistent st indices"
  shows "\<exists>st' i. process_endpoint st e = (Inr (st', i), inject_type e) \<and>
           consistent st' (indices @ [i]) \<and>
           fst ` set (vertex_name_to_ind st') =
             insert (endpoint_name e) (fst ` set (vertex_name_to_ind st)) \<and>
           vertex_index_connections st' = vertex_index_connections st"
proof -
  let ?props = "AList.update ''type'' [ep_type e] (properties e)"
  let ?n = "vertices_so_far st"
  from wf obtain vals where vals: "map_of (properties e) ''name'' = Some vals"
    by (auto simp: well_formed_endpoint_def)
  with wf have "vals \<noteq> []"
    using map_of_list_all [of "properties e" "''name''" vals "\<lambda>(key, vals). vals \<noteq> []"]
    by (simp add: well_formed_endpoint_def)
  then obtain nm rest where nm: "vals = nm # rest" by (cases vals) auto
  have en: "endpoint_name e = nm"
    by (simp add: endpoint_name_def vals nm)
  have name: "map_of ?props ''name'' = Some (nm # rest)"
    using vals nm by (simp add: update_conv')
  have "list_all (\<lambda>(key, vals). vals \<noteq> []) ?props"
    using wf by (intro list_all_update) (simp_all add: well_formed_endpoint_def)
  then obtain vp where vp: "copy_properties ?props (vertex_properties st) = Inr vp"
    using copy_properties_ok by blast
  from inv have snds: "map snd (vertex_name_to_ind st) = [0..<?n]"
    and dist: "distinct (map fst (vertex_name_to_ind st))"
    and used: "used_indices st indices = {0..<?n}"
    and col: "?n > 0 \<longrightarrow> map_of (vertex_properties st) ''name'' \<noteq> None"
    and cols: "list_all (\<lambda>(key, col). col \<noteq> []) (vertex_properties st)"
    by (simp_all add: consistent_def)
  show ?thesis
  proof (cases "map_of (vertex_name_to_ind st) nm")
    case (Some i)
    then have run: "process_endpoint st e = (Inr (st, i), inject_type e)"
      using name by (simp add: process_endpoint_def inject_type_def Let_def)
    from Some snds have "i < ?n" by (rule index_in_range [rotated])
    with used have "used_indices st (indices @ [i]) = {0..<?n}"
      by (auto simp: used_indices_def)
    with snds dist col cols have c: "consistent st (indices @ [i])"
      by (simp add: consistent_def)
    from Some have "nm \<in> fst ` set (vertex_name_to_ind st)"
      by (metis map_of_eq_None_iff option.distinct(1))
    with run c en show ?thesis by (auto simp: insert_absorb)
  next
    case None
    let ?st' = "st\<lparr>vertex_name_to_ind := AList.update nm ?n (vertex_name_to_ind st),
                   vertex_properties := vp, vertices_so_far := ?n + 1\<rparr>"
    from None have run: "process_endpoint st e = (Inr (?st', ?n), inject_type e)"
      using name vp by (simp add: process_endpoint_def inject_type_def Let_def)
    from None have al: "AList.update nm ?n (vertex_name_to_ind st) = vertex_name_to_ind st @ [(nm, ?n)]"
      by (rule update_new_key)
    from None have fresh: "nm \<notin> fst ` set (vertex_name_to_ind st)"
      by (simp add: map_of_eq_None_iff)
    have "''name'' \<in> fst ` set ?props"
      using name by (metis map_of_eq_None_iff option.distinct(1))
    with vp have col': "map_of vp ''name'' \<noteq> None"
      using copy_properties_column by blast
    have used': "used_indices ?st' (indices @ [?n]) = {0..<Suc ?n}"
      using used by (auto simp: used_indices_def)
    from vp cols have cols': "list_all (\<lambda>(key, col). col \<noteq> []) vp"
      by (rule copy_properties_nonempty)
    have c: "consistent ?st' (indices @ [?n])"
      using snds dist fresh col' used' cols' by (simp add: consistent_def al)
    have "fst ` set (vertex_name_to_ind ?st') = insert nm (fst ` set (vertex_name_to_ind st))"
      by (simp add: al)
    with run c en show ?thesis by auto
  qed
qed

lemma process_pair_step:
  "list_all well_formed_endpoint pair \<Longrightarrow> consistent st indices \<Longrightarrow>
   \<exists>st' indices'. process_pair st indices pair = (Inr (st', indices'), map inject_type pair) \<and>
      consistent st' indices' \<and>
      fst ` set (vertex_name_to_ind st') =
        fst ` set (vertex_name_to_ind st) \<union> endpoint_name ` set pair \<and>
      vertex_index_connections st' = vertex_index_connections st \<and>
      length indices' = length indices + length pair"
proof (induction pair arbitrary: st indices)
  case Nil
  then show ?case by simp
next
  case (Cons e pair)
  from Cons.prems have "well_formed_endpoint e" by simp
  from process_endpoint_step [OF this Cons.prems(2)]
  obtain st1 i where e: "process_endpoint st e = (Inr (st1, i), inject_type e)"
    and c1: "consistent st1 (indices @ [i])"
    and k1: "fst ` set (vertex_name_to_ind st1) =
               insert (endpoint_name e) (fst ` set (vertex_name_to_ind st))"
    and v1: "vertex_index_connections st1 = vertex_index_connections st"
    by blast
  from Cons.prems have "list_all well_formed_endpoint pair" by simp
  from Cons.IH [OF this c1]
  obtain st2 indices2 where
    p: "process_pair st1 (indices @ [i]) pair = (Inr (st2, indices2), map inject_type pair)"
    and c2: "consistent st2 indices2"
    and k2: "fst ` set (vertex_name_to_ind st2) =
               fst ` set (vertex_name_to_ind st1) \<union> endpoint_name ` set pair"
    and v2: "vertex_index_connections st2 = vertex_index_connections st1"
    and l2: "length indices2 = length (indices @ [i]) + length pair"
    by blast
  have "process_pair st indices (e # pair) = (Inr (st2, indices2), map inject_type (e # pair))"
    using e p by simp
  moreover have "fst ` set (vertex_name_to_ind st2) =
                   fst ` set (vertex_name_to_ind st) \<union> endpoint_name ` set (e # pair)"
    using k1 k2 by auto
  ultimately show ?case using c2 v1 v2 l2 by auto
qed

lemma process_connections_step:
  "list_all (list_all well_formed_endpoint) conns \<Longrightarrow> consistent st [] \<Longrightarrow>
   \<exists>st' new. process_connections st conns = (Inr st', map (map inject_type) conns) \<and>
      consistent st' [] \<and>
      fst ` set (vertex_name_to_ind st') =
        fst ` set (vertex_name_to_ind st) \<union> endpoint_name ` set (concat conns) \<and>
      vertex_index_connections st' = vertex_index_connections st @ new \<and>
      map length new = map length conns"
proof (induction conns arbitrary: st)
  case Nil
  then show ?case by simp
next
  case (Cons pair conns)
  from Cons.prems have "list_all well_formed_endpoint pair" by simp
  from process_pair_step [OF this Cons.prems(2)]
  obtain st1 indices where
    p: "process_pair st [] pair = (Inr (st1, indices), map inject_type pair)"
    and c1: "consistent st1 indices"
    and k1: "fst ` set (vertex_name_to_ind st1) =
               fst ` set (vertex_name_to_ind st) \<union> endpoint_name ` set pair"
    and v1: "vertex_index_connections st1 = vertex_index_connections st"
    and l1: "length indices = length pair"
    by auto
  let ?st2 = "st1\<lparr>vertex_index_connections := vertex_index_connections st1 @ [indices]\<rparr>"
  have c2: "consistent ?st2 []"
    using c1 by (auto simp: consistent_def used_indices_def)
  from Cons.prems have "list_all (list_all well_formed_endpoint) conns" by simp
  from Cons.IH [OF this c2]
  obtain st3 new where
    r: "process_connections ?st2 conns = (Inr st3, map (map inject_type) conns)"
    and c3: "consistent st3 []"
    and k3: "fst ` set (vertex_name_to_ind st3) =
               fst ` set (vertex_name_to_ind ?st2) \<union> endpoint_name ` set (concat conns)"
    and v3: "vertex_index_connections st3 = vertex_index_connections ?st2 @ new"
    and l3: "map length new = map length conns"
    by blast
  have "process_connections st (pair # conns) = (Inr st3, map (map inject_type) (pair # conns))"
    using p r by simp
  moreover have "fst ` set (vertex_name_to_ind st3) =
                   fst ` set (vertex_name_to_ind st) \<union> endpoint_name ` set (concat (pair # conns))"
    using k1 k3 by auto
  moreover have "vertex_index_connections st3 = vertex_index_connections st @ (indices # new)"
    using v1 v3 by simp
  moreover have "map length (indices # new) = map length (pair # conns)"
    using l1 l3 by simp
  ultimately show ?case using c3 by blast
qed

lemma as_pairs_ok:
  "list_all (\<lambda>t. length t = 2) ts \<Longrightarrow>
   \<exists>ps. as_pairs ts = Inr ps \<and> length ps = length ts \<and>
        set (map fst ps @ map snd ps) = set (concat ts)"
proof (induction ts)
  case Nil
  then show ?case by simp
next
  case (Cons t ts)
  from Cons.prems have "length t = 2" by simp
  then obtain a b where t: "t = [a, b]"
    by (cases t; cases "tl t") auto
  from Cons obtain ps where "as_pairs ts = Inr ps" "length ps = length ts"
    "set (map fst ps @ map snd ps) = set (concat ts)"
    by auto
  then show ?case by (auto simp: t)
qed

lemma fold_max_bounds:
  "(a::nat) \<le> fold max xs a \<and> (\<forall>x \<in> set xs. x \<le> fold max xs a) \<and> fold max xs a \<in> insert a (set xs)"
proof (induction xs arbitrary: a)
  case Nil
  then show ?case by simp
next
  case (Cons x xs)
  from Cons [of "max x a"] show ?case
    by (auto simp: max_def split: if_splits)
qed

lemma fold_max_range:
  assumes "set xs = {0..<n}" and "0 < n"
  shows "Suc (fold max xs 0) = n"
proof -
  from assms have "n - 1 \<in> set xs" by simp
  with fold_max_bounds [of 0 xs] have "n - 1 \<le> fold max xs 0" by blast
  moreover from fold_max_bounds [of 0 xs] assms have "fold max xs 0 < n" by auto
  ultimately show ?thesis by simp
qed

lemma length_recycle: "length (recycle n col) = n"
  by (simp add: recycle_def)

lemma recycle_full: "length col = n \<Longrightarrow> recycle n col = col"
  by (auto simp: recycle_def intro: nth_equalityI)

lemma set_attributes_ok:
  "list_all (\<lambda>(key, col). col \<noteq> []) vp \<Longrightarrow>
   \<exists>g'. set_attributes vp g = (Inr (), g') \<and> vcount g' = vcount g \<and> es g' = es g \<and>
        (k \<in> fst ` set vp \<or> map_of (vs g) k \<noteq> None \<longrightarrow> map_of (vs g') k \<noteq> None) \<and>
        (list_all (\<lambda>(key, col). length col = vcount g) (vs g) \<longrightarrow>
         list_all (\<lambda>(key, col). length col = vcount g) (vs g'))"
proof (induction vp arbitrary: g)
  case Nil
  then show ?case by simp
next
  case (Cons item vp)
  obtain key col where item: "item = (key, col)" by (cases item)
  from Cons.prems have col: "col \<noteq> []" and rest: "list_all (\<lambda>(key, col). col \<noteq> []) vp"
    by (simp_all add: item)
  define g1 where "g1 = g\<lparr>vs := AList.update key (recycle (vcount g) col) (vs g)\<rparr>"
  have assign: "vs_assign key col g = Inr g1"
    using col by (simp add: vs_assign_def g1_def)
  have g1: "vcount g1 = vcount g" "es g1 = es g"
    by (simp_all add: g1_def)
  have dom: "k \<in> fst ` set (item # vp) \<or> map_of (vs g) k \<noteq> None \<Longrightarrow>
             k \<in> fst ` set vp \<or> map_of (vs g1) k \<noteq> None"
    by (auto simp: item g1_def update_conv')
  have len: "list_all (\<lambda>(key, col). length col = vcount g) (vs g) \<Longrightarrow>
             list_all (\<lambda>(key, col). length col = vcount g1) (vs g1)"
    by (simp add: g1_def list_all_update length_recycle)
  from Cons.IH [OF rest, of g1] obtain g' where
    run: "set_attributes vp g1 = (Inr (), g')"
    and fr: "vcount g' = vcount g1" "es g' = es g1"
    and d: "k \<in> fst ` set vp \<or> map_of (vs g1) k \<noteq> None \<longrightarrow> map_of (vs g') k \<noteq> None"
    and l: "list_all (\<lambda>(key, col). length col = vcount g1) (vs g1) \<longrightarrow>
            list_all (\<lambda>(key, col). length col = vcount g1) (vs g')"
    by blast
  have "set_attributes (item # vp) g = (Inr (), g')"
    using assign run by (simp add: item)
  with fr g1 d l dom len show ?case by auto
qed

lemma consistent_init: "consistent init_state []"
  by (simp add: consistent_def init_state_def used_indices_def)

text \<open>
  The part of C2 that holds for every well-formed input with at least one connection,
  whatever keys the endpoints carry: the build succeeds, the graph has one vertex for
  each distinct endpoint name and one edge for each connection, and the caller's list is
  returned with the type entries.
\<close>

lemma build_vertices_and_edges:
  assumes wf: "list_all (list_all well_formed_endpoint) conns"
    and two: "list_all (\<lambda>pair. length pair = 2) conns"
    and ne: "conns \<noteq> []"
  shows "\<exists>self'. create_from_connections_undirected self conns =
                   (Inr (), self', map (map inject_type) conns) \<and>
                 vcount (graph self') = card (endpoint_name ` set (concat conns)) \<and>
                 length (es (graph self')) = length conns"
proof -
  from process_connections_step [OF wf consistent_init]
  obtain st new where
    run: "process_connections init_state conns = (Inr st, map (map inject_type) conns)"
    and c: "consistent st []"
    and k: "fst ` set (vertex_name_to_ind st) = endpoint_name ` set (concat conns)"
    and v: "vertex_index_connections st = new"
    and l: "map length new = map length conns"
    by (auto simp: init_state_def)
  let ?n = "vertices_so_far st"
  from two l have "list_all (\<lambda>t. length t = 2) new"
    by (simp add: list_all_iff) (metis (no_types, lifting) in_set_conv_nth length_map nth_map)
  from as_pairs_ok [OF this] obtain ps where
    ps: "as_pairs new = Inr ps" "length ps = length new"
    "set (map fst ps @ map snd ps) = set (concat new)"
    by blast
  from l have ln: "length new = length conns"
    by (metis length_map)
  with ps ne have psne: "ps \<noteq> []" by auto
  from c v have used: "set (concat new) = {0..<?n}"
    by (simp add: consistent_def used_indices_def)
  from psne have "set (map fst ps @ map snd ps) \<noteq> {}"
    by (cases ps) simp_all
  then have "set (concat new) \<noteq> {}"
    unfolding ps(3) .
  with used have pos: "0 < ?n" by auto
  from fold_max_range [of "map fst ps @ map snd ps" ?n] ps(3) used pos
  have vc: "Suc (fold max (map fst ps @ map snd ps) 0) = ?n" by simp
  define g0 where "g0 = \<lparr>vcount = ?n, es = ps, vs = []\<rparr>"
  have g0: "igraph_Graph (vertex_index_connections st) = Inr g0"
    using ps(1) psne vc by (simp add: igraph_Graph_def v g0_def)
  from c have cols: "list_all (\<lambda>(key, col). col \<noteq> []) (vertex_properties st)"
    by (simp add: consistent_def)
  from c pos have "map_of (vertex_properties st) ''name'' \<noteq> None"
    by (simp add: consistent_def)
  then have dom: "''name'' \<in> fst ` set (vertex_properties st)"
    by (simp add: map_of_eq_None_iff)
  from set_attributes_ok [OF cols, of g0 "''name''"] obtain g1 where
    attrs: "set_attributes (vertex_properties st) g0 = (Inr (), g1)"
    and fr: "vcount g1 = ?n" "es g1 = ps"
    and d: "''name'' \<in> fst ` set (vertex_properties st) \<or> map_of (vs g0) ''name'' \<noteq> None \<longrightarrow>
            map_of (vs g1) ''name'' \<noteq> None"
    and len: "list_all (\<lambda>(key, col). length col = ?n) (vs g1)"
    by (auto simp: g0_def)
  from d dom obtain names where names: "map_of (vs g1) ''name'' = Some names" by auto
  from map_of_list_all [OF names len] have "length names = ?n" by simp
  with pos have "names \<noteq> []" by auto
  define g2 where "g2 = g1\<lparr>vs := AList.update ''label'' (recycle (vcount g1) names) (vs g1)\<rparr>"
  have label: "vs_assign ''label'' names g1 = Inr g2"
    using \<open>names \<noteq> []\<close> by (simp add: vs_assign_def g2_def)
  have res: "create_from_connections_undirected self conns =
               (Inr (), self\<lparr>graph := g2\<rparr>, map (map inject_type) conns)"
    using run g0 attrs names label by (simp add: create_from_connections_undirected_def)
  from c have "length (vertex_name_to_ind st) = ?n"
    by (metis consistent_def length_map length_upt minus_nat.diff_0)
  moreover from c have "card (fst ` set (vertex_name_to_ind st)) = length (vertex_name_to_ind st)"
    by (metis consistent_def distinct_card length_map set_map)
  ultimately have "card (endpoint_name ` set (concat conns)) = ?n"
    using k by simp
  moreover have "vcount (graph (self\<lparr>graph := g2\<rparr>)) = ?n" "es (graph (self\<lparr>graph := g2\<rparr>)) = ps"
    using fr by (simp_all add: g2_def)
  ultimately show ?thesis using res ps(2) ln by auto
qed

text \<open>
  An endpoint whose name has been seen changes none of the tables: it only yields the
  index its name has had since its first occurrence.
\<close>

lemma seen_name_changes_nothing:
  assumes "well_formed_endpoint e"
    and "map_of (vertex_name_to_ind st) (endpoint_name e) = Some i"
  shows "process_endpoint st e = (Inr (st, i), inject_type e)"
proof -
  from assms(1) obtain vals where vals: "map_of (properties e) ''name'' = Some vals"
    by (auto simp: well_formed_endpoint_def)
  with assms(1) have "vals \<noteq> []"
    using map_of_list_all [of "properties e" "''name''" vals "\<lambda>(key, vals). vals \<noteq> []"]
    by (simp add: well_formed_endpoint_def)
  then obtain nm rest where nm: "vals = nm # rest" by (cases vals) auto
  have "endpoint_name e = nm"
    by (simp add: endpoint_name_def vals nm)
  moreover have "map_of (AList.update ''type'' [ep_type e] (properties e)) ''name'' = Some (nm # rest)"
    using vals nm by (simp add: update_conv')
  ultimately show ?thesis
    using assms(2) by (simp add: process_endpoint_def inject_type_def Let_def)
qed

text \<open>
  What the loop over the keys does to the columns, for a dict (no key twice): the column
  of a key of the new vertex gets the first value of that key appended, and every other
  column stays as long as it was. A column is therefore as long as the number of
  vertices that carry its key, not as the number of vertices.
\<close>

lemma copy_properties_columns:
  "distinct (map fst items) \<Longrightarrow> copy_properties items vp = Inr vp' \<Longrightarrow>
   map_of vp' k =
     (case map_of items k of
        None \<Rightarrow> map_of vp k
      | Some vals \<Rightarrow> Some ((case map_of vp k of None \<Rightarrow> [] | Some col \<Rightarrow> col) @ [hd vals]))"
proof (induction items arbitrary: vp)
  case Nil
  then show ?case by simp
next
  case (Cons item items)
  obtain key vals where item: "item = (key, vals)" by (cases item)
  from Cons.prems(2) item obtain v rest where vals: "vals = v # rest"
    by (cases vals) (simp_all add: Let_def)
  define vp2 where "vp2 =
    AList.update key
      ((case map_of (if map_of vp key = None then AList.update key [] vp else vp) key of
          None \<Rightarrow> [] | Some col \<Rightarrow> col) @ [v])
      (if map_of vp key = None then AList.update key [] vp else vp)"
  from Cons.prems(2) have run: "copy_properties items vp2 = Inr vp'"
    by (simp add: item vals Let_def vp2_def)
  from Cons.prems(1) have dist: "distinct (map fst items)" and fresh: "key \<notin> fst ` set items"
    by (simp_all add: item)
  note IH = Cons.IH [OF dist run]
  show ?case
  proof (cases "k = key")
    case True
    from fresh have none: "map_of items key = None"
      by (simp add: map_of_eq_None_iff)
    have "map_of vp2 key = Some ((case map_of vp key of None \<Rightarrow> [] | Some col \<Rightarrow> col) @ [v])"
      by (auto simp: vp2_def update_conv')
    with IH none True show ?thesis
      by (simp add: item vals)
  next
    case False
    then have "map_of vp2 k = map_of vp k"
      by (simp add: vp2_def update_conv')
    with IH False show ?thesis
      by (simp add: item split: option.splits)
  qed
qed

text \<open>
  C2, at an input where the code departs from it. Three vertices, of which \<open>A\<close> and
  \<open>C\<close> have a \<open>colour\<close> and \<open>B\<close> has none: the build gives three vertices and two
  edges, as \<open>build_vertices_and_edges\<close> says, and the second occurrence of \<open>B\<close> changes
  nothing, as \<open>seen_name_changes_nothing\<close> says. But by \<open>copy_properties_columns\<close> the
  column of \<open>colour\<close> in \<^verbatim>\<open>vertex_properties\<close> has two entries for the three vertices,
  and entry 1, the slot of \<open>B\<close>, holds the colour of \<open>C\<close>. Assigned to the graph, the
  column is taken round to three entries: \<open>B\<close>, which has no colour, is stored with
  \<open>blue\<close>, and \<open>C\<close>, whose first and only occurrence says \<open>blue\<close>, is stored with
  \<open>red\<close>. The values stored for \<open>B\<close> and \<open>C\<close> are not those of their first
  occurrences, while the comment of line 47 wants entry \<open>i\<close> of a column to be the
  value of vertex \<open>i\<close>.
\<close>

theorem build_shifts_columns:
  "map_sum id vertex_properties (fst (process_connections init_state
     [[\<lparr>properties = [(''name'', [''A'']), (''colour'', [''red''])], ep_type = ''X''\<rparr>,
       \<lparr>properties = [(''name'', [''B''])], ep_type = ''Y''\<rparr>],
      [\<lparr>properties = [(''name'', [''B''])], ep_type = ''Y''\<rparr>,
       \<lparr>properties = [(''name'', [''C'']), (''colour'', [''blue''])], ep_type = ''Z''\<rparr>]]))
   = Inr [(''name'', [''A'', ''B'', ''C'']), (''colour'', [''red'', ''blue'']),
          (''type'', [''X'', ''Y'', ''Z''])] \<and>
   fst (create_from_connections_undirected LocalGraph_init
     [[\<lparr>properties = [(''name'', [''A'']), (''colour'', [''red''])], ep_type = ''X''\<rparr>,
       \<lparr>properties = [(''name'', [''B''])], ep_type = ''Y''\<rparr>],
      [\<lparr>properties = [(''name'', [''B''])], ep_type = ''Y''\<rparr>,
       \<lparr>properties = [(''name'', [''C'']), (''colour'', [''blue''])], ep_type = ''Z''\<rparr>]])
   = Inr () \<and>
   fst (snd (create_from_connections_undirected LocalGraph_init
     [[\<lparr>properties = [(''name'', [''A'']), (''colour'', [''red''])], ep_type = ''X''\<rparr>,
       \<lparr>properties = [(''name'', [''B''])], ep_type = ''Y''\<rparr>],
      [\<lparr>properties = [(''name'', [''B''])], ep_type = ''Y''\<rparr>,
       \<lparr>properties = [(''name'', [''C'']), (''colour'', [''blue''])], ep_type = ''Z''\<rparr>]]))
   = \<lparr>graph = \<lparr>vcount = 3, es = [(0, 1), (1, 2)],
                 vs = [(''name'', [''A'', ''B'', ''C'']), (''colour'', [''red'', ''blue'', ''red'']),
                       (''type'', [''X'', ''Y'', ''Z'']), (''label'', [''A'', ''B'', ''C''])]\<rparr>\<rparr> \<and>
   stored_bag \<lparr>vcount = 3, es = [(0, 1), (1, 2)],
                vs = [(''name'', [''A'', ''B'', ''C'']), (''colour'', [''red'', ''blue'', ''red'']),
                      (''type'', [''X'', ''Y'', ''Z'']), (''label'', [''A'', ''B'', ''C''])]\<rparr> 1
   = [(''name'', ''B''), (''colour'', ''blue''), (''type'', ''Y''), (''label'', ''B'')] \<and>
   stored_bag \<lparr>vcount = 3, es = [(0, 1), (1, 2)],
                vs = [(''name'', [''A'', ''B'', ''C'']), (''colour'', [''red'', ''blue'', ''red'']),
                      (''type'', [''X'', ''Y'', ''Z'']), (''label'', [''A'', ''B'', ''C''])]\<rparr> 2
   = [(''name'', ''C''), (''colour'', ''red''), (''type'', ''Z''), (''label'', ''C'')]"
  by (simp add: create_from_connections_undirected_def init_state_def process_endpoint_def
      igraph_Graph_def vs_assign_def recycle_def LocalGraph_init_def stored_bag_def Let_def
      upt_rec [of 0] upt_rec [of 1] upt_rec [of 2] upt_rec [of 3])

text \<open>
  C7, as stated, fails with an engine that, like igraph, raises for a name that no vertex
  has: on the graph built from one connection between \<open>A\<close> and \<open>B\<close>, asking for the
  paths from \<open>A\<close> to \<open>Z\<close> raises \<open>ValueError\<close>.
\<close>

theorem absent_name_counterexample:
  "fst (snd (create_from_connections_undirected LocalGraph_init
     [[\<lparr>properties = [(''name'', [''A''])], ep_type = ''X''\<rparr>,
       \<lparr>properties = [(''name'', [''B''])], ep_type = ''Y''\<rparr>]]))
   = \<lparr>graph = \<lparr>vcount = 2, es = [(0, 1)],
                 vs = [(''name'', [''A'', ''B'']), (''type'', [''X'', ''Y'']),
                       (''label'', [''A'', ''B''])]\<rparr>\<rparr> \<and>
   find_shortest_paths igraph_get_all_shortest_paths
     \<lparr>graph = \<lparr>vcount = 2, es = [(0, 1)],
                vs = [(''name'', [''A'', ''B'']), (''type'', [''X'', ''Y'']),
                      (''label'', [''A'', ''B''])]\<rparr>\<rparr> ''A'' ''Z''
   = Inl (ValueError ''no such vertex'')"
  by (simp add: create_from_connections_undirected_def init_state_def process_endpoint_def
      igraph_Graph_def vs_assign_def recycle_def LocalGraph_init_def find_shortest_paths_def
      igraph_get_all_shortest_paths_def vertex_of_name_def Let_def)

text \<open>
  C7, amended. \<open>find_shortest_paths\<close> makes no check of its own and catches nothing:
  for every graph and every pair of names, present or absent, its outcome is the
  engine's. It raises what the engine raises, and it returns an empty result exactly
  when the engine does.
\<close>

theorem find_shortest_paths_is_engine:
  "find_shortest_paths eng self name1 name2 = eng (graph self) name1 name2 \<and>
   (\<forall>err. eng (graph self) name1 name2 = Inl err \<longrightarrow>
      find_shortest_paths eng self name1 name2 = Inl err) \<and>
   (find_shortest_paths eng self name1 name2 = Inr [] \<longleftrightarrow> eng (graph self) name1 name2 = Inr [])"
  by (simp add: find_shortest_paths_def)

theorem find_shortest_paths_is_engine_witness:
  "igraph_get_all_shortest_paths
     \<lparr>vcount = 2, es = [(0, 1)], vs = [(''name'', [''A'', ''B''])]\<rparr> ''Z'' ''A''
   = Inl (ValueError ''no such vertex'') \<and>
   find_shortest_paths igraph_get_all_shortest_paths
     \<lparr>graph = \<lparr>vcount = 2, es = [(0, 1)], vs = [(''name'', [''A'', ''B''])]\<rparr>\<rparr> ''Z'' ''A''
   = Inl (ValueError ''no such vertex'') \<and>
   find_shortest_paths igraph_get_all_shortest_paths
     \<lparr>graph = \<lparr>vcount = 2, es = [(0, 1)], vs = [(''name'', [''A'', ''B''])]\<rparr>\<rparr> ''A'' ''B''
   = Inr [[0, 1]]"
  using find_shortest_paths_is_engine [of igraph_get_all_shortest_paths
      "\<lparr>graph = \<lparr>vcount = 2, es = [(0, 1)], vs = [(''name'', [''A'', ''B''])]\<rparr>\<rparr>" "''Z''" "''A''"]
    find_shortest_paths_is_engine [of igraph_get_all_shortest_paths
      "\<lparr>graph = \<lparr>vcount = 2, es = [(0, 1)], vs = [(''name'', [''A'', ''B''])]\<rparr>\<rparr>" "''A''" "''B''"]
  by (simp add: igraph_get_all_shortest_paths_def vertex_of_name_def neighbours_def
      numeral_2_eq_2)

end
